theory Spec2Isabelle
  imports Complex_Main "HOL-Library.List_Lexorder" "HOL-Library.Char_ord"
    "HOL-Library.Extended_Nat" "HOL-Library.Log_Nat"
begin

section \<open>Data model\<close>

text \<open>
  A polynomial is the array of its coefficients, index \<open>i\<close> holding the coefficient of
  \<open>x^i\<close>. The source computes on JavaScript numbers. The model computes on exact reals
  for the coefficients, the roots and the precision; the binomial coefficients, which the
  source builds by adding integers, are modelled with the rounding and the overflow of
  that addition. An interval is the pair of its bounds.
\<close>

type_synonym polynomial = "real list"
type_synonym interval = "real \<times> real"

section \<open>Evaluation (polynomial/evaluation)\<close>

text \<open>
  \<open>evaluatePolynomial\<close>: Horner's rule, the loop running from the last index down to 0
  with \<open>result = result * x + poly[i]\<close>.
\<close>

definition evaluatePolynomial :: "polynomial \<Rightarrow> real \<Rightarrow> real" where
  "evaluatePolynomial poly x = fold (\<lambda>a result. result * x + a) (rev poly) 0"

section \<open>Binomial coefficients with the module's cache (polynomial/transformations)\<close>

text \<open>
  The values of \<open>binomial\<close> are non-negative integers held in doubles, or \<open>Infinity\<close>:
  type \<open>enat\<close>. The only arithmetic on them is the addition \<open>binomial(n - 1, k - 1) +
  binomial(n - 1, k)\<close>, an IEEE 754 addition with rounding to nearest, ties to even. A
  sum below \<open>2^53\<close> is exact. A larger sum of bit length \<open>L\<close> is rounded to a multiple
  of \<open>2^(L - 53)\<close>, to the one with the even quotient on a tie. A rounded sum of \<open>2^1024\<close>
  or more is \<open>Infinity\<close>, and so is every sum with \<open>Infinity\<close>.
\<close>

definition roundToDouble :: "nat \<Rightarrow> enat" where
  "roundToDouble v =
     (if v < 2 ^ 53 then enat v
      else
        let ulp = 2 ^ (floorlog 2 v - 53);
            q = v div ulp;
            r = v mod ulp;
            q = (if 2 * r < ulp \<or> (2 * r = ulp \<and> even q) then q else q + 1)
        in if q * ulp < 2 ^ 1024 then enat (q * ulp) else \<infinity>)"

definition double_plus :: "enat \<Rightarrow> enat \<Rightarrow> enat" where
  "double_plus a b =
     (case (a, b) of (enat x, enat y) \<Rightarrow> roundToDouble (x + y) | _ \<Rightarrow> \<infinity>)"

text \<open>
  \<open>binomialCache\<close> is a module-level object keyed by the string \<open>n,k\<close>; the model keys it
  by the pair. Every function that reaches \<open>binomial\<close> takes the cache and returns it
  updated.
\<close>

type_synonym cache = "int \<times> int \<Rightarrow> enat option"

definition precomputed :: "nat list list" where
  "precomputed =
     [[6], [10], [15, 20], [21, 35], [28, 56, 70], [36, 84, 126], [45, 120, 210, 252]]"

text \<open>
  \<open>binomial(n, k)\<close>, named \<open>binomial_cached\<close> here because \<open>binomial\<close> is the
  library's \<open>n choose k\<close>. The arguments are the loop indices of the callers, integers.
  The test \<open>k > n / 2\<close> is written \<open>n < 2 * k\<close> on integers. The test
  \<open>if (binomialCache[cacheKey])\<close> is a truthiness test: an absent key and a stored 0 both
  fall through to the recursion, a stored \<open>Infinity\<close> is returned. Where \<open>n\<close> itself is
  returned it is at least 2.
\<close>

function binomial_cached :: "cache \<Rightarrow> int \<Rightarrow> int \<Rightarrow> enat \<times> cache" where
  "binomial_cached binomialCache n k =
     (if k < 0 \<or> k > n then (0, binomialCache)
      else if k = 0 \<or> k = n then (1, binomialCache)
      else if k = 1 \<or> k = n - 1 then (enat (nat n), binomialCache)
      else
        let k = (if n < 2 * k then n - k else k) in
        if n \<le> 10 \<and> k < int (length (precomputed ! nat (n - 4)))
        then (enat (precomputed ! nat (n - 4) ! nat (k - 2)), binomialCache)
        else if binomialCache (n, k) \<noteq> None \<and> binomialCache (n, k) \<noteq> Some 0
        then (the (binomialCache (n, k)), binomialCache)
        else
          let (a, cache1) = binomial_cached binomialCache (n - 1) (k - 1);
              (b, cache2) = binomial_cached cache1 (n - 1) k;
              val = double_plus a b
          in (val, cache2((n, k) \<mapsto> val)))"
  by pat_completeness auto
termination
  by (relation "measure (\<lambda>(c, n, k). nat n)") auto

text \<open>
  The cache is private to the module and written only by \<open>binomial\<close> itself. Every
  binomial coefficient with \<open>n \<le> 56\<close> is below \<open>2^53\<close>, so every cache the program can
  reach stores exact coefficients under the keys with \<open>n \<le> 56\<close>; the entries above may
  be rounded.
\<close>

definition cache_ok :: "cache \<Rightarrow> bool" where
  "cache_ok binomialCache \<longleftrightarrow>
     (\<forall>n k v. binomialCache (n, k) = Some v \<longrightarrow> n \<le> 56 \<longrightarrow>
        v = enat (nat n choose nat k))"

section \<open>Transform kernels (polynomial/transformations)\<close>

text \<open>
  An entry of the array that \<open>taylorShift\<close> or \<open>taylorShiftBy1\<close> builds is a real number
  or, once a binomial coefficient that is \<open>Infinity\<close> has entered it, one of \<open>Infinity\<close>,
  \<open>-Infinity\<close> and \<open>NaN\<close>: a product with \<open>Infinity\<close> is one of the three, and so is
  every sum or product with one of them.
\<close>

datatype number = Finite real | NotFinite

text \<open>
  \<open>taylorShift\<close> and \<open>taylorShiftBy1\<close> copy their argument, update the copy in a double
  loop that reads the original, and return the copy. The loop body is
  \<open>newCoefficients[k] += polynomial[i] * binomial(i, k) * Math.pow(shift, i - k)\<close>.
\<close>

definition taylorShift_body ::
  "polynomial \<Rightarrow> real \<Rightarrow> nat \<Rightarrow> nat \<Rightarrow> number list \<times> cache \<Rightarrow> number list \<times> cache" where
  "taylorShift_body polynomial shift i k =
     (\<lambda>(newCoefficients, binomialCache).
        let (b, cache') = binomial_cached binomialCache (int i) (int k)
        in (newCoefficients
              [k := (case (newCoefficients ! k, b) of
                       (Finite old, enat c) \<Rightarrow>
                         Finite (old + polynomial ! i * real c * shift ^ (i - k))
                     | _ \<Rightarrow> NotFinite)],
            cache'))"

definition taylorShift :: "cache \<Rightarrow> polynomial \<Rightarrow> real \<Rightarrow> number list \<times> cache" where
  "taylorShift binomialCache polynomial shift =
     fold (\<lambda>i. fold (taylorShift_body polynomial shift i) [0..<i])
       [1..<length polynomial] (map Finite polynomial, binomialCache)"

definition taylorShiftBy1_body ::
  "polynomial \<Rightarrow> nat \<Rightarrow> nat \<Rightarrow> number list \<times> cache \<Rightarrow> number list \<times> cache" where
  "taylorShiftBy1_body polynomial i k =
     (\<lambda>(newCoefficients, binomialCache).
        let (b, cache') = binomial_cached binomialCache (int i) (int k)
        in (newCoefficients
              [k := (case (newCoefficients ! k, b) of
                       (Finite old, enat c) \<Rightarrow> Finite (old + polynomial ! i * real c)
                     | _ \<Rightarrow> NotFinite)],
            cache'))"

definition taylorShiftBy1 :: "cache \<Rightarrow> polynomial \<Rightarrow> number list \<times> cache" where
  "taylorShiftBy1 binomialCache polynomial =
     fold (\<lambda>i. fold (taylorShiftBy1_body polynomial i) [0..<i])
       [1..<length polynomial] (map Finite polynomial, binomialCache)"

text \<open>\<open>reversed\<close>: \<open>[...polynomial].reverse()\<close>.\<close>

definition reversed :: "polynomial \<Rightarrow> polynomial" where
  "reversed polynomial = rev polynomial"

text \<open>\<open>scaleInput\<close>: \<open>polynomial.map((coefficient, i) => Math.pow(scaleFactor, i) * coefficient)\<close>.\<close>

definition scaleInput :: "polynomial \<Rightarrow> real \<Rightarrow> polynomial" where
  "scaleInput polynomial scaleFactor =
     map (\<lambda>(i, coefficient). scaleFactor ^ i * coefficient) (List.enumerate 0 polynomial)"

text \<open>
  \<open>scaleInputInReverseOrder\<close>: the exponent is \<open>degree - i\<close> with
  \<open>degree = polynomial.length - 1\<close>; \<open>map\<close> visits only \<open>i \<le> degree\<close>.
\<close>

definition scaleInputInReverseOrder :: "polynomial \<Rightarrow> real \<Rightarrow> polynomial" where
  "scaleInputInReverseOrder polynomial scaleFactor =
     map (\<lambda>(i, coefficient). scaleFactor ^ (length polynomial - 1 - i) * coefficient)
       (List.enumerate 0 polynomial)"

text \<open>
  \<open>scale\<close> and \<open>scaleCoefficients\<close> are the two private helpers that write into the array
  they are given, from index 1 on; the model returns the array after the loop.
\<close>

definition scale :: "real list \<Rightarrow> real \<Rightarrow> real list" where
  "scale coefficients scaleFactor =
     fold (\<lambda>i cs. cs[i := scaleFactor ^ i * cs ! i]) [1..<length coefficients] coefficients"

definition scaleCoefficients :: "real list \<Rightarrow> real \<Rightarrow> real list" where
  "scaleCoefficients coefficients scaleFactor =
     fold (\<lambda>i cs. cs[i := scaleFactor ^ i * cs ! i]) [1..<length coefficients] coefficients"

text \<open>
  The three composite maps work on a local copy \<open>transformedCoefficients\<close>. The helpers
  \<open>scale\<close>, \<open>scaleCoefficients\<close> and \<open>Array.prototype.reverse\<close> change that copy in place.
  The calls \<open>taylorShift(transformedCoefficients, ...)\<close> and
  \<open>taylorShiftBy1(transformedCoefficients)\<close> are expression statements: the array they
  return is dropped and the copy is left as it was, so only their effect on the cache
  remains.
\<close>

definition mapIntervalToPositiveReals ::
  "cache \<Rightarrow> polynomial \<Rightarrow> interval \<Rightarrow> polynomial \<times> cache" where
  "mapIntervalToPositiveReals binomialCache polynomial interval =
     (let transformedCoefficients = polynomial;
          (leftBound, rightBound) = interval;
          (dropped1, cache1) = taylorShift binomialCache transformedCoefficients leftBound;
          transformedCoefficients = scale transformedCoefficients (rightBound - leftBound);
          transformedCoefficients = rev transformedCoefficients;
          (dropped2, cache2) = taylorShiftBy1 cache1 transformedCoefficients
      in (transformedCoefficients, cache2))"

definition mapUnitIntervalToPositiveReals :: "cache \<Rightarrow> polynomial \<Rightarrow> polynomial \<times> cache" where
  "mapUnitIntervalToPositiveReals binomialCache polynomial =
     (let transformedCoefficients = polynomial;
          transformedCoefficients = rev transformedCoefficients;
          (dropped, cache1) = taylorShiftBy1 binomialCache transformedCoefficients
      in (transformedCoefficients, cache1))"

definition transformedForLowerInterval ::
  "cache \<Rightarrow> polynomial \<Rightarrow> real \<Rightarrow> polynomial \<times> cache" where
  "transformedForLowerInterval binomialCache polynomial s =
     (let transformedCoefficients = polynomial;
          transformedCoefficients = scaleCoefficients transformedCoefficients s;
          transformedCoefficients = rev transformedCoefficients;
          (dropped, cache1) = taylorShift binomialCache transformedCoefficients 1
      in (transformedCoefficients, cache1))"


section \<open>Root finding (rootFinding/rootFinding)\<close>

text \<open>
  Two errors can leave \<open>findAllRealRoots\<close>: the \<open>Error\<close> it throws on an empty polynomial,
  and the \<open>RangeError\<close> that \<open>Number.prototype.toFixed\<close> throws when its argument is not
  between 0 and 100.
\<close>

datatype error = EmptyPolynomial | RangeError

text \<open>
  The module imports five functions whose source is not part of the files at hand. They
  are taken as parameters, as pure functions that return fresh arrays.
\<close>

record collaborators =
  hasStrictlyNegativeRoots :: "polynomial \<Rightarrow> bool"
  hasStrictlyPositiveRoots :: "polynomial \<Rightarrow> bool"
  makeSquareFree :: "polynomial \<Rightarrow> polynomial"
  isolatePositiveRealRootsContinuedFractions :: "polynomial \<Rightarrow> interval list"
  refineRootIntervalBisection :: "(real \<Rightarrow> real) \<Rightarrow> interval \<Rightarrow> real \<Rightarrow> real"

definition calculateDecimalPlacesFromPrecision :: "real \<Rightarrow> int" where
  "calculateDecimalPlacesFromPrecision precision =
     (if precision \<le> 0 then 0 else - \<lfloor>log 10 precision\<rfloor>)"

text \<open>
  \<open>parseFloat(num.toFixed(decimalPlaces))\<close> on exact reals. \<open>toFixed\<close> throws a
  \<open>RangeError\<close> unless \<open>0 \<le> decimalPlaces \<le> 100\<close>; from \<open>10^21\<close> on it prints the number
  itself; below, it prints the sign and the nearest multiple of \<open>10^-decimalPlaces\<close> to
  the magnitude, the larger one on a tie.
\<close>

definition toFixed :: "real \<Rightarrow> int \<Rightarrow> error + real" where
  "toFixed num decimalPlaces =
     (if decimalPlaces < 0 \<or> 100 < decimalPlaces then Inl RangeError
      else if 10 ^ 21 \<le> \<bar>num\<bar> then Inr num
      else Inr (sgn num * real_of_int \<lfloor>\<bar>num\<bar> * 10 ^ nat decimalPlaces + 1 / 2\<rfloor>
                  / 10 ^ nat decimalPlaces))"

definition roundToPrecisionBasedOnDecimal :: "real \<Rightarrow> real \<Rightarrow> error + real" where
  "roundToPrecisionBasedOnDecimal num precision =
     (let decimalPlaces = calculateDecimalPlacesFromPrecision precision
      in toFixed num decimalPlaces)"

text \<open>
  \<open>insertRootSorted\<close>: the loop walks the array from index 0. It returns from the function
  on an entry within the tolerance (\<open>None\<close>), and breaks with \<open>insertIndex = i\<close> on the
  first entry above the new root; when it runs out, \<open>insertIndex\<close> is the length. Then
  \<open>roots.splice(insertIndex, 0, newRoot)\<close>.
\<close>

fun insertRootSorted_loop :: "real list \<Rightarrow> real \<Rightarrow> real \<Rightarrow> nat \<Rightarrow> nat option" where
  "insertRootSorted_loop [] newRoot tolerance i = Some i"
| "insertRootSorted_loop (r # rest) newRoot tolerance i =
     (if \<bar>newRoot - r\<bar> \<le> tolerance then None
      else if newRoot < r then Some i
      else insertRootSorted_loop rest newRoot tolerance (i + 1))"

definition insertRootSorted :: "real list \<Rightarrow> real \<Rightarrow> real \<Rightarrow> real list" where
  "insertRootSorted roots newRoot tolerance =
     (case insertRootSorted_loop roots newRoot tolerance 0 of
        None \<Rightarrow> roots
      | Some insertIndex \<Rightarrow> take insertIndex roots @ newRoot # drop insertIndex roots)"

text \<open>
  The closure \<open>processRoots\<close> of \<open>findAllRealRoots\<close>: one pass over the isolating intervals,
  updating the array \<open>roots\<close> of the enclosing call. A \<open>RangeError\<close> from the rounding ends
  the pass.
\<close>

fun processRoots_loop ::
  "collaborators \<Rightarrow> real \<Rightarrow> polynomial \<Rightarrow> bool \<Rightarrow> interval list \<Rightarrow> real list
     \<Rightarrow> error + real list" where
  "processRoots_loop C precision polynomial isNegative [] roots = Inr roots"
| "processRoots_loop C precision polynomial isNegative (interval # rest) roots =
     (let evaluateFunc = evaluatePolynomial polynomial;
          rawRoot = refineRootIntervalBisection C evaluateFunc interval precision;
          root = (if isNegative then - rawRoot else rawRoot)
      in case roundToPrecisionBasedOnDecimal root precision of
           Inl e \<Rightarrow> Inl e
         | Inr rounded \<Rightarrow>
             processRoots_loop C precision polynomial isNegative rest
               (insertRootSorted roots rounded precision))"

definition processRoots ::
  "collaborators \<Rightarrow> real \<Rightarrow> polynomial \<Rightarrow> bool \<Rightarrow> real list \<Rightarrow> error + real list" where
  "processRoots C precision polynomial isNegative roots =
     (let rootIntervals = isolatePositiveRealRootsContinuedFractions C polynomial
      in processRoots_loop C precision polynomial isNegative rootIntervals roots)"

text \<open>
  The two guarded calls that end \<open>findAllRealRoots\<close> (\<open>// Find negative roots\<close>,
  \<open>// Find positive roots\<close>), as a function of the square-free polynomial and of the
  array \<open>roots\<close> as it stands before them.
\<close>

definition processBothSigns ::
  "collaborators \<Rightarrow> real \<Rightarrow> polynomial \<Rightarrow> real list \<Rightarrow> error + real list" where
  "processBothSigns C precision squareFreePolynomial roots =
     (case (if hasStrictlyNegativeRoots C squareFreePolynomial
            then let negatedPolynomial = scaleInput squareFreePolynomial (- 1)
                 in processRoots C precision negatedPolynomial True roots
            else Inr roots) of
        Inl e \<Rightarrow> Inl e
      | Inr roots \<Rightarrow>
          if hasStrictlyPositiveRoots C squareFreePolynomial
          then processRoots C precision squareFreePolynomial False roots
          else Inr roots)"

definition Number_EPSILON :: real where
  "Number_EPSILON = 1 / 2 ^ 52"

text \<open>
  \<open>findAllRealRoots\<close> returns the caller's array as the call leaves it, and either the
  error thrown or the array \<open>roots\<close>. The statements are in the order of the source:
  the emptiness test, \<open>makeSquareFree(polynomial)\<close>, then the test of the constant term
  with \<open>roots.push(0)\<close> and \<open>polynomial.splice(0, 1)\<close>, then the two passes.
\<close>

definition findAllRealRoots ::
  "collaborators \<Rightarrow> polynomial \<Rightarrow> real \<Rightarrow> polynomial \<times> (error + real list)" where
  "findAllRealRoots C polynomial precision =
     (if length polynomial = 0 then (polynomial, Inl EmptyPolynomial)
      else
        let squareFreePolynomial = makeSquareFree C polynomial;
            (roots, polynomial) =
               (if \<bar>polynomial ! 0\<bar> < Number_EPSILON then ([0], drop 1 polynomial)
                else ([], polynomial))
        in (polynomial, processBothSigns C precision squareFreePolynomial roots))"

definition findStrictlyPositiveRoots :: "collaborators \<Rightarrow> polynomial \<Rightarrow> real \<Rightarrow> real list" where
  "findStrictlyPositiveRoots C polynomial precision =
     (if \<not> hasStrictlyPositiveRoots C polynomial then []
      else
        let squareFreePolynomial = makeSquareFree C polynomial;
            isolatedRootIntervals = isolatePositiveRealRootsContinuedFractions C squareFreePolynomial;
            evaluateFunc = evaluatePolynomial squareFreePolynomial
        in map (\<lambda>interval. refineRootIntervalBisection C evaluateFunc interval precision)
             isolatedRootIntervals)"

text \<open>
  \<open>Array.prototype.sort()\<close> called without a comparison function orders the elements by
  their string conversions, compared code unit by code unit, and is stable. The
  conversion of a number to a string belongs to the language, not to the program: it is
  an argument of the model.
\<close>

definition sort_default :: "(real \<Rightarrow> string) \<Rightarrow> real list \<Rightarrow> real list" where
  "sort_default numberToString xs = sort_key numberToString xs"

definition findStrictlyNegativeRoots ::
  "collaborators \<Rightarrow> (real \<Rightarrow> string) \<Rightarrow> polynomial \<Rightarrow> real \<Rightarrow> real list" where
  "findStrictlyNegativeRoots C numberToString polynomial precision =
     (if \<not> hasStrictlyNegativeRoots C polynomial then []
      else
        let squareFreePolynomial = makeSquareFree C polynomial;
            negatedPolynomial = scaleInput squareFreePolynomial (- 1);
            isolatedRootIntervals = isolatePositiveRealRootsContinuedFractions C negatedPolynomial;
            evaluateFunc = evaluatePolynomial negatedPolynomial;
            negatedNegativeRoots =
              map (\<lambda>interval. refineRootIntervalBisection C evaluateFunc interval precision)
                isolatedRootIntervals
        in sort_default numberToString (map (\<lambda>root. - root) negatedNegativeRoots))"


section \<open>Auxiliary definitions for the statements\<close>

text \<open>
  The summand of the binomial expansion: what the loop body of \<open>taylorShift\<close> adds to
  entry \<open>k\<close> for the original term \<open>i\<close>.
\<close>

definition shift_term :: "polynomial \<Rightarrow> real \<Rightarrow> nat \<Rightarrow> nat \<Rightarrow> real" where
  "shift_term p s i k = p ! i * real (i choose k) * s ^ (i - k)"

text \<open>
  The invariant of the root list: strictly increasing, adjacent entries further apart
  than the tolerance.
\<close>

definition root_list_ok :: "real \<Rightarrow> real list \<Rightarrow> bool" where
  "root_list_ok tolerance roots \<longleftrightarrow>
     successively (\<lambda>a b. a < b \<and> tolerance < b - a) roots"

text \<open>
  \<open>Number::toString\<close> on an integer-valued number below \<open>10^21\<close> in magnitude: a minus
  sign for a negative number, then the decimal digits of the magnitude. This is the
  conversion that the default \<open>sort\<close> applies to the numbers of the evaluations below;
  the digits the language prints for other numbers are not described here.
\<close>

function decimalDigits :: "nat \<Rightarrow> string" where
  "decimalDigits n =
     (if n < 10 then [''0123456789'' ! n]
      else decimalDigits (n div 10) @ [''0123456789'' ! (n mod 10)])"
  by pat_completeness auto
termination
  by (relation "measure id") auto

definition integerToString :: "real \<Rightarrow> string" where
  "integerToString x =
     (if x < 0 then CHR ''-'' # decimalDigits (nat \<lfloor>- x\<rfloor>) else decimalDigits (nat \<lfloor>x\<rfloor>))"

text \<open>
  An instance of the five imported functions on which the orchestrator can be run for
  \<open>x^2 + 3x + 2 = (x + 1)(x + 2)\<close>, coefficients \<open>[2, 3, 1]\<close>, and its mirror image
  \<open>x^2 - 3x + 2 = (x - 1)(x - 2)\<close>, coefficients \<open>[2, -3, 1]\<close>. Both are square-free;
  the first has only negative roots, the second only positive ones, isolated by
  \<open>(1/2, 3/2)\<close> and \<open>(3/2, 5/2)\<close>; the midpoints of these intervals, where a bisection
  starts, are the roots themselves.
\<close>

definition quadratic_collaborators :: collaborators where
  "quadratic_collaborators =
     \<lparr> hasStrictlyNegativeRoots = (\<lambda>p. p = [2, 3, 1]),
       hasStrictlyPositiveRoots = (\<lambda>p. p = [2, - 3, 1]),
       makeSquareFree = (\<lambda>p. p),
       isolatePositiveRealRootsContinuedFractions =
         (\<lambda>p. if p = [2, - 3, 1] then [(1 / 2, 3 / 2), (3 / 2, 5 / 2)] else []),
       refineRootIntervalBisection = (\<lambda>f (lower, upper) precision. (lower + upper) / 2) \<rparr>"

section \<open>Binomial coefficients: exact up to 56, rounded from 57\<close>

declare binomial_cached.simps [simp del]
declare decimalDigits.simps [simp del]

lemma precomputed_exact:
  assumes "4 \<le> n" "n \<le> 10" "2 \<le> k" "k < int (length (precomputed ! nat (n - 4)))"
  shows "precomputed ! nat (n - 4) ! nat (k - 2) = nat n choose nat k"
proof -
  from assms(1,2) consider "n = 4" | "n = 5" | "n = 6" | "n = 7" | "n = 8" | "n = 9" | "n = 10"
    by linarith
  then show ?thesis
  proof cases
    case 1 with assms show ?thesis by (simp add: precomputed_def)
  next
    case 2 with assms show ?thesis by (simp add: precomputed_def)
  next
    case 3 with assms show ?thesis by (simp add: precomputed_def)
  next
    case 4 with assms show ?thesis by (simp add: precomputed_def)
  next
    case 5
    with assms have "k = 2" by (simp add: precomputed_def)
    with 5 show ?thesis by (simp add: precomputed_def choose_two)
  next
    case 6
    with assms have "k = 2" by (simp add: precomputed_def)
    with 6 show ?thesis by (simp add: precomputed_def choose_two)
  next
    case 7
    with assms have "k = 2 \<or> k = 3" by (auto simp add: precomputed_def)
    with 7 show ?thesis by (auto simp add: precomputed_def choose_two eval_nat_numeral)
  qed
qed

lemma choose_reduce:
  assumes "0 \<le> k" "k \<le> n"
  shows "nat n choose nat (n - k) = nat n choose nat k"
proof -
  have "nat (n - k) = nat n - nat k" using assms by linarith
  moreover have "nat k \<le> nat n" using assms by linarith
  ultimately show ?thesis by (simp add: binomial_symmetric [symmetric])
qed

lemma choose_pascal_int:
  assumes "1 \<le> k" "k \<le> n"
  shows "(nat (n - 1) choose nat (k - 1)) + (nat (n - 1) choose nat k) = nat n choose nat k"
proof -
  obtain m where m: "nat n = Suc m" using assms by (cases "nat n") auto
  obtain j where j: "nat k = Suc j" using assms by (cases "nat k") auto
  have "nat (n - 1) = m" "nat (k - 1) = j" using m j by linarith+
  then show ?thesis using m j by simp
qed

lemma choose_edge_int:
  assumes "0 \<le> k" "k \<le> n" "k = 0 \<or> k = n \<or> k = 1 \<or> k = n - 1"
  shows "nat n choose nat k = (if k = 0 \<or> k = n then 1 else nat n)"
proof -
  consider "k = 0" | "k = n" | "k = 1" "k \<noteq> n" | "k = n - 1" "k \<noteq> 0" "k \<noteq> n"
    using assms by blast
  then show ?thesis
  proof cases
    case 1 then show ?thesis by simp
  next
    case 2 then show ?thesis by simp
  next
    case 3 then show ?thesis using assms by simp
  next
    case 4
    then have "nat k = nat n - 1" "1 \<le> nat n" using assms by linarith+
    then have "nat n choose nat k = nat n"
      by (metis binomial_symmetric choose_one)
    then show ?thesis using 4 assms by simp
  qed
qed

lemma choose_mono_upper: "m \<le> n \<Longrightarrow> m choose k \<le> n choose k"
proof (induction n)
  case 0
  then show ?case by simp
next
  case (Suc n)
  show ?case
  proof (cases "m = Suc n")
    case True
    then show ?thesis by simp
  next
    case False
    with Suc have "m choose k \<le> n choose k" by simp
    also have "\<dots> \<le> Suc n choose k" by (cases k) simp_all
    finally show ?thesis .
  qed
qed

lemma choose_from_fact:
  assumes "k \<le> n" "fact k * fact (n - k) * v = (fact n :: nat)"
  shows "n choose k = v"
proof -
  have "fact k * fact (n - k) * (n choose k) = (fact n :: nat)"
    using assms(1) by (rule binomial_fact_lemma)
  then have "fact k * fact (n - k) * (n choose k) = fact k * fact (n - k) * v"
    using assms(2) by simp
  then show ?thesis by simp
qed

lemma choose_56_28: "(56::nat) choose 28 = 7648690600760440"
  by (rule choose_from_fact) (simp_all add: fact_numeral)

lemma choose_below_2_53:
  assumes "n \<le> 56"
  shows "n choose k < 2 ^ 53"
proof -
  have "n choose k \<le> 56 choose k" using assms by (rule choose_mono_upper)
  also have "\<dots> \<le> 56 choose (56 div 2)" by (rule binomial_maximum)
  also have "\<dots> < 2 ^ 53" by (simp add: choose_56_28)
  finally show ?thesis .
qed

lemma roundToDouble_small: "v < 2 ^ 53 \<Longrightarrow> roundToDouble v = enat v"
  by (simp add: roundToDouble_def)

lemma double_plus_pascal:
  assumes "1 \<le> k" "k \<le> n" "n \<le> 56"
  shows "double_plus (enat (nat (n - 1) choose nat (k - 1))) (enat (nat (n - 1) choose nat k))
           = enat (nat n choose nat k)"
proof -
  have "nat n choose nat k < 2 ^ 53" using assms(3) by (intro choose_below_2_53) simp
  then show ?thesis using choose_pascal_int [OF assms(1,2)]
    by (simp add: double_plus_def roundToDouble_small)
qed

lemma binomial_cached_outside: "k < 0 \<or> n < k \<Longrightarrow> binomial_cached c n k = (0, c)"
  by (subst binomial_cached.simps) (simp only: if_True simp_thms split: if_splits)

lemma binomial_cached_edge:
  assumes "0 \<le> k" "k \<le> n" "k = 0 \<or> k = n \<or> k = 1 \<or> k = n - 1"
  shows "binomial_cached c n k = (if k = 0 \<or> k = n then 1 else enat (nat n), c)"
  using assms by (subst binomial_cached.simps) auto

lemma binomial_cached_inner:
  assumes "0 \<le> k" "k \<le> n" "\<not> (k = 0 \<or> k = n \<or> k = 1 \<or> k = n - 1)"
    and "k' = (if n < 2 * k then n - k else k)"
  shows "binomial_cached c n k =
     (if n \<le> 10 \<and> k' < int (length (precomputed ! nat (n - 4)))
        then (enat (precomputed ! nat (n - 4) ! nat (k' - 2)), c)
        else if c (n, k') \<noteq> None \<and> c (n, k') \<noteq> Some 0
        then (the (c (n, k')), c)
        else
          let (a, cache1) = binomial_cached c (n - 1) (k' - 1);
              (b, cache2) = binomial_cached cache1 (n - 1) k';
              val = double_plus a b
          in (val, cache2((n, k') \<mapsto> val)))"
  using assms by (subst binomial_cached.simps) (simp add: Let_def)

lemma cache_ok_update:
  "cache_ok c \<Longrightarrow> (n \<le> 56 \<Longrightarrow> v = enat (nat n choose nat k)) \<Longrightarrow> cache_ok (c((n, k) \<mapsto> v))"
  by (simp add: cache_ok_def)

lemma binomial_cached_exact:
  "cache_ok c \<Longrightarrow>
     cache_ok (snd (binomial_cached c n k))
     \<and> (0 \<le> k \<and> k \<le> n \<and> n \<le> 56 \<longrightarrow> fst (binomial_cached c n k) = enat (nat n choose nat k))"
proof (induction c n k rule: binomial_cached.induct)
  case (1 c n k)
  define k' where "k' = (if n < 2 * k then n - k else k)"
  consider (outside) "k < 0 \<or> n < k"
    | (edge) "0 \<le> k" "k \<le> n" "k = 0 \<or> k = n \<or> k = 1 \<or> k = n - 1"
    | (inner) "0 \<le> k" "k \<le> n" "\<not> (k = 0 \<or> k = n \<or> k = 1 \<or> k = n - 1)"
    by linarith
  then show ?case
  proof cases
    case outside
    then show ?thesis using "1.prems" by (auto simp: binomial_cached_outside)
  next
    case edge
    then show ?thesis using "1.prems"
      by (simp add: binomial_cached_edge choose_edge_int one_enat_def)
  next
    case inner
    then have k'2: "2 \<le> k'" "k' \<le> n - 2" "0 \<le> k'" "k' \<le> n" "1 \<le> k'" "k' \<le> n - 1"
      by (auto simp: k'_def)
    have ch: "nat n choose nat k' = nat n choose nat k"
      using inner by (simp add: k'_def choose_reduce)
    note unf = binomial_cached_inner [OF inner k'_def, of c]
    show ?thesis
    proof (cases "n \<le> 10 \<and> k' < int (length (precomputed ! nat (n - 4)))")
      case True
      then have "precomputed ! nat (n - 4) ! nat (k' - 2) = nat n choose nat k'"
        using k'2 by (intro precomputed_exact) auto
      then show ?thesis using True "1.prems" ch by (simp add: unf)
    next
      case nt: False
      show ?thesis
      proof (cases "c (n, k') \<noteq> None \<and> c (n, k') \<noteq> Some 0")
        case True
        then have "n \<le> 56 \<Longrightarrow> the (c (n, k')) = enat (nat n choose nat k')"
          using "1.prems" by (auto simp: cache_ok_def)
        moreover have "binomial_cached c n k = (the (c (n, k')), c)"
          using True nt by (auto simp add: unf)
        ultimately show ?thesis using "1.prems" ch by simp
      next
        case nc: False
        obtain a c1 where r1: "binomial_cached c (n - 1) (k' - 1) = (a, c1)" by force
        obtain b c2 where r2: "binomial_cached c1 (n - 1) k' = (b, c2)" by force
        have pre: "\<not> (k < 0 \<or> n < k)" "\<not> (k = 0 \<or> k = n)" "\<not> (k = 1 \<or> k = n - 1)"
          using inner by auto
        have ih1: "cache_ok c1" "n \<le> 56 \<Longrightarrow> a = enat (nat (n - 1) choose nat (k' - 1))"
          using "1.IH"(1) [OF pre k'_def nt nc "1.prems"] k'2 by (simp_all add: r1)
        have ih2: "cache_ok c2" "n \<le> 56 \<Longrightarrow> b = enat (nat (n - 1) choose nat k')"
          using "1.IH"(2) [OF pre k'_def nt nc refl r1 [symmetric] ih1(1)] k'2
          by (simp_all add: r2)
        have val: "double_plus a b = enat (nat n choose nat k')" if "n \<le> 56"
          using ih1(2) ih2(2) that double_plus_pascal [of k' n] k'2 by simp
        have eq: "binomial_cached c n k = (double_plus a b, c2((n, k') \<mapsto> double_plus a b))"
          using nt nc by (auto simp add: unf r1 r2 Let_def)
        have ok: "cache_ok (c2((n, k') \<mapsto> double_plus a b))"
          using ih2(1) val by (rule cache_ok_update)
        have "n \<le> 56 \<Longrightarrow> double_plus a b = enat (nat n choose nat k)" using val ch by simp
        with ok show ?thesis unfolding eq fst_conv snd_conv by blast
      qed
    qed
  qed
qed


lemma cache_ok_empty: "cache_ok Map.empty"
  by (simp add: cache_ok_def)

lemma choose_56_24: "(56::nat) choose 24 = 4355031703297275"
  by (rule choose_from_fact) (simp_all add: fact_numeral)

lemma choose_56_25: "(56::nat) choose 25 = 5574440580220512"
  by (rule choose_from_fact) (simp_all add: fact_numeral)

lemma choose_57_25: "(57::nat) choose 25 = 9929472283517787"
  by (rule choose_from_fact) (simp_all add: fact_numeral)

lemma floorlog_57_25: "floorlog 2 9929472283517787 = 54"
proof -
  have "floorlog 2 9929472283517787 \<le> 54"
    by (rule floorlog_leI) simp_all
  moreover have "54 \<le> floorlog 2 9929472283517787"
    by (rule floorlog_geI) simp_all
  ultimately show ?thesis by simp
qed

lemma roundToDouble_57_25: "roundToDouble 9929472283517787 = enat 9929472283517788"
  by (simp add: roundToDouble_def floorlog_57_25 Let_def)

lemma binomial_cached_57_25:
  assumes "cache_ok c" "c (57, 25) = None"
  shows "fst (binomial_cached c 57 25) = enat 9929472283517788"
proof -
  obtain a c1 where r1: "binomial_cached c 56 24 = (a, c1)" by force
  obtain b c2 where r2: "binomial_cached c1 56 25 = (b, c2)" by force
  have "a = enat (56 choose 24)" "cache_ok c1"
    using binomial_cached_exact [OF assms(1), of 56 24] by (simp_all add: r1)
  moreover from this have "b = enat (56 choose 25)"
    using binomial_cached_exact [of c1 56 25] by (simp add: r2)
  ultimately have "double_plus a b = enat 9929472283517788"
    by (simp add: double_plus_def choose_56_24 choose_56_25 roundToDouble_57_25)
  moreover have "binomial_cached c 57 25 = (double_plus a b, c2((57, 25) \<mapsto> double_plus a b))"
    using binomial_cached_inner [of 25 57 25 c] assms(2)
    by (simp add: precomputed_def r1 r2 Let_def)
  ultimately show ?thesis by simp
qed

section \<open>The Taylor shift\<close>

lemma evaluatePolynomial_foldr:
  "evaluatePolynomial poly x = foldr (\<lambda>a result. result * x + a) poly 0"
  by (simp add: evaluatePolynomial_def foldr_conv_fold)

lemma evaluatePolynomial_sum:
  "evaluatePolynomial poly x = (\<Sum>k<length poly. poly ! k * x ^ k)"
proof (induction poly)
  case Nil
  show ?case by (simp add: evaluatePolynomial_foldr)
next
  case (Cons a poly)
  have "evaluatePolynomial (a # poly) x = evaluatePolynomial poly x * x + a"
    by (simp add: evaluatePolynomial_foldr)
  also have "\<dots> = (\<Sum>k<length poly. poly ! k * x ^ k) * x + a"
    by (simp add: Cons.IH)
  also have "\<dots> = (\<Sum>k<length (a # poly). (a # poly) ! k * x ^ k)"
    by (simp del: sum.lessThan_Suc add: sum.lessThan_Suc_shift sum_distrib_left mult_ac)
  finally show ?case .
qed

lemma taylorShift_body_keeps_cache_ok:
  "cache_ok c \<Longrightarrow> cache_ok (snd (taylorShift_body p s i k (new, c)))"
  using binomial_cached_exact [of c "int i" "int k"]
  by (simp add: taylorShift_body_def split_beta)

lemma taylorShiftBy1_body_keeps_cache_ok:
  "cache_ok c \<Longrightarrow> cache_ok (snd (taylorShiftBy1_body p i k (new, c)))"
  using binomial_cached_exact [of c "int i" "int k"]
  by (simp add: taylorShiftBy1_body_def split_beta)

lemma fold_keeps_cache_ok:
  assumes "\<And>x new c. cache_ok c \<Longrightarrow> cache_ok (snd (f x (new, c)))"
  shows "cache_ok (snd st) \<Longrightarrow> cache_ok (snd (fold f xs st))"
proof (induction xs arbitrary: st)
  case Nil
  then show ?case by simp
next
  case (Cons x xs)
  have "cache_ok (snd (f x st))" using assms [of "snd st" x "fst st"] Cons.prems by simp
  then show ?case using Cons.IH by simp
qed

lemma taylorShift_keeps_cache_ok:
  "cache_ok c \<Longrightarrow> cache_ok (snd (taylorShift c p s))"
  unfolding taylorShift_def
  by (intro fold_keeps_cache_ok taylorShift_body_keeps_cache_ok) simp_all

lemma taylorShiftBy1_keeps_cache_ok:
  "cache_ok c \<Longrightarrow> cache_ok (snd (taylorShiftBy1 c p))"
  unfolding taylorShiftBy1_def
  by (intro fold_keeps_cache_ok taylorShiftBy1_body_keeps_cache_ok) simp_all

lemma taylorShift_body_exact:
  assumes "cache_ok c" "k \<le> i" "i \<le> 56" "k < length new"
  shows "\<exists>c'. taylorShift_body p s i k (map Finite new, c)
               = (map Finite (new[k := new ! k + shift_term p s i k]), c')
             \<and> cache_ok c'"
proof -
  obtain b c' where r: "binomial_cached c (int i) (int k) = (b, c')" by force
  have "cache_ok (snd (binomial_cached c (int i) (int k)))
        \<and> fst (binomial_cached c (int i) (int k)) = enat (nat (int i) choose nat (int k))"
    using binomial_cached_exact [OF assms(1), of "int i" "int k"] assms(2,3) by simp
  then have "b = enat (i choose k)" "cache_ok c'" by (simp_all add: r)
  then show ?thesis using assms(4)
    by (simp add: taylorShift_body_def r shift_term_def map_update)
qed

lemma taylorShift_inner:
  assumes "cache_ok c" "m \<le> i" "i \<le> 56" "i < length new"
  shows "\<exists>c'. fold (taylorShift_body p s i) [0..<m] (map Finite new, c)
            = (map Finite
                 (map (\<lambda>k. if k < m then new ! k + shift_term p s i k else new ! k)
                    [0..<length new]), c')
          \<and> cache_ok c'"
  using assms(2)
proof (induction m)
  case 0
  then show ?case using assms(1) by (simp add: map_nth)
next
  case (Suc m)
  let ?new1 = "map (\<lambda>k. if k < m then new ! k + shift_term p s i k else new ! k) [0..<length new]"
  from Suc obtain c1 where c1:
    "fold (taylorShift_body p s i) [0..<m] (map Finite new, c) = (map Finite ?new1, c1)"
    "cache_ok c1" by auto
  have m: "m \<le> i" "m < length ?new1" using Suc.prems assms(4) by simp_all
  obtain c2 where c2:
    "taylorShift_body p s i m (map Finite ?new1, c1)
       = (map Finite (?new1[m := ?new1 ! m + shift_term p s i m]), c2)"
    "cache_ok c2"
    using taylorShift_body_exact [OF c1(2) m(1) assms(3) m(2), of p s] by auto
  have "?new1[m := ?new1 ! m + shift_term p s i m]
       = map (\<lambda>k. if k < Suc m then new ! k + shift_term p s i k else new ! k) [0..<length new]"
    by (rule nth_equalityI) (auto simp: nth_list_update less_Suc_eq)
  then show ?case using c1 c2 by simp
qed

lemma taylorShift_outer:
  assumes "cache_ok c" "m \<le> length p" "length p \<le> 57"
  shows "\<exists>c'. fold (\<lambda>i. fold (taylorShift_body p s i) [0..<i]) [1..<m] (map Finite p, c)
            = (map Finite
                 (map (\<lambda>k. p ! k + (\<Sum>i = Suc k..<m. shift_term p s i k)) [0..<length p]), c')
          \<and> cache_ok c'"
  using assms(2)
proof (induction m)
  case 0
  then show ?case using assms(1) by (simp add: map_nth)
next
  case (Suc m)
  show ?case
  proof (cases "m = 0")
    case True
    then show ?thesis using assms(1) by (simp add: map_nth)
  next
    case False
    let ?new1 = "map (\<lambda>k. p ! k + (\<Sum>i = Suc k..<m. shift_term p s i k)) [0..<length p]"
    from Suc obtain c1 where c1:
      "fold (\<lambda>i. fold (taylorShift_body p s i) [0..<i]) [1..<m] (map Finite p, c)
         = (map Finite ?new1, c1)" "cache_ok c1"
      by auto
    have m: "m \<le> 56" "m < length ?new1" using Suc.prems assms(3) by simp_all
    obtain c2 where c2: "fold (taylorShift_body p s m) [0..<m] (map Finite ?new1, c1)
        = (map Finite
             (map (\<lambda>k. if k < m then ?new1 ! k + shift_term p s m k else ?new1 ! k)
                [0..<length ?new1]), c2)"
      "cache_ok c2"
      using taylorShift_inner [OF c1(2) le_refl m, of p s] by auto
    have "map (\<lambda>k. if k < m then ?new1 ! k + shift_term p s m k else ?new1 ! k) [0..<length ?new1]
        = map (\<lambda>k. p ! k + (\<Sum>i = Suc k..<Suc m. shift_term p s i k)) [0..<length p]"
      by (rule nth_equalityI) (auto simp: add.assoc)
    moreover have "[1..<Suc m] = [1..<m] @ [m]" using False by simp
    ultimately show ?thesis using c1 c2 by simp
  qed
qed

lemma taylorShift_exact:
  assumes "cache_ok c" "length p \<le> 57"
  shows "fst (taylorShift c p s)
           = map (\<lambda>k. Finite (\<Sum>i = k..<length p. shift_term p s i k)) [0..<length p]"
proof -
  obtain c' where c': "taylorShift c p s
       = (map Finite
            (map (\<lambda>k. p ! k + (\<Sum>i = Suc k..<length p. shift_term p s i k)) [0..<length p]), c')"
    using taylorShift_outer [OF assms(1) le_refl assms(2), of s] by (auto simp: taylorShift_def)
  have "map (\<lambda>k. p ! k + (\<Sum>i = Suc k..<length p. shift_term p s i k)) [0..<length p]
      = map (\<lambda>k. \<Sum>i = k..<length p. shift_term p s i k) [0..<length p]"
    by (rule nth_equalityI) (auto simp: sum.atLeast_Suc_lessThan shift_term_def)
  with c' show ?thesis by (simp add: comp_def)
qed

lemma sum_triangle_swap:
  fixes f :: "nat \<Rightarrow> nat \<Rightarrow> real"
  shows "(\<Sum>k<n. \<Sum>i = k..<n. f i k) = (\<Sum>i<n. \<Sum>k\<le>i. f i k)"
proof -
  have row: "(\<Sum>i = k..<n. f i k) = (\<Sum>i<n. if k \<le> i then f i k else 0)" for k
  proof -
    have "{k..<n} = {..<n} \<inter> {i. k \<le> i}" by auto
    then show ?thesis by (simp add: sum.inter_restrict)
  qed
  have col: "(\<Sum>k\<le>i. f i k) = (\<Sum>k<n. if k \<le> i then f i k else 0)" if "i < n" for i
  proof -
    have "{..i} = {..<n} \<inter> {k. k \<le> i}" using that by auto
    then show ?thesis by (simp add: sum.inter_restrict)
  qed
  have "(\<Sum>k<n. \<Sum>i = k..<n. f i k) = (\<Sum>k<n. \<Sum>i<n. if k \<le> i then f i k else 0)"
    by (simp add: row)
  also have "\<dots> = (\<Sum>i<n. \<Sum>k<n. if k \<le> i then f i k else 0)"
    by (rule sum.swap)
  also have "\<dots> = (\<Sum>i<n. \<Sum>k\<le>i. f i k)"
    by (rule sum.cong [OF refl]) (simp add: col)
  finally show ?thesis .
qed

lemma shifted_coefficients_evaluate:
  "evaluatePolynomial (map (\<lambda>k. \<Sum>i = k..<length p. shift_term p s i k) [0..<length p]) x
     = evaluatePolynomial p (x + s)"
proof -
  let ?n = "length p"
  have "evaluatePolynomial (map (\<lambda>k. \<Sum>i = k..<?n. shift_term p s i k) [0..<?n]) x
      = (\<Sum>k<?n. (\<Sum>i = k..<?n. shift_term p s i k) * x ^ k)"
    by (simp add: evaluatePolynomial_sum)
  also have "\<dots> = (\<Sum>k<?n. \<Sum>i = k..<?n. shift_term p s i k * x ^ k)"
    by (simp add: sum_distrib_right)
  also have "\<dots> = (\<Sum>i<?n. \<Sum>k\<le>i. shift_term p s i k * x ^ k)"
    by (rule sum_triangle_swap)
  also have "\<dots> = (\<Sum>i<?n. p ! i * (x + s) ^ i)"
    by (intro sum.cong refl) (simp add: binomial_ring shift_term_def sum_distrib_left mult_ac)
  also have "\<dots> = evaluatePolynomial p (x + s)"
    by (simp add: evaluatePolynomial_sum)
  finally show ?thesis .
qed

text \<open>
  Claim C8, as stated: \<open>binomial(n, k)\<close> equals the exact binomial coefficient for all
  integers \<open>0 \<le> k \<le> n\<close>. The statement fails at \<open>n = 57\<close>, \<open>k = 25\<close>: the sum of the two
  exact entries of row 56 is the odd number 9929472283517787 above \<open>2^53\<close>, and the
  addition rounds it to 9929472283517788.
\<close>

theorem binomial_57_25_counterexample:
  "fst (binomial_cached Map.empty 57 25) = enat 9929472283517788
   \<and> (57 :: nat) choose 25 = 9929472283517787
   \<and> fst (binomial_cached Map.empty 57 25) \<noteq> enat (nat 57 choose nat 25)"
  using binomial_cached_57_25 [OF cache_ok_empty] by (simp add: choose_57_25)

text \<open>
  Claim C8, amended: for every polynomial \<open>p\<close> of at most 57 coefficients, every shift
  and every \<open>x\<close>, evaluating \<open>taylorShift(p, shift)\<close> at \<open>x\<close> gives the value of \<open>p\<close> at
  \<open>x + shift\<close> over exact real arithmetic: entry \<open>k\<close> of the result is the sum over the
  original terms \<open>i \<ge> k\<close> of \<open>p[i] * C(i,k) * shift^(i-k)\<close>; this relies on \<open>binomial(n, k)\<close>
  equalling the exact binomial coefficient for all integers \<open>0 \<le> k \<le> n \<le> 56\<close>. The cache
  is any cache the module can have reached: one whose entries for \<open>n \<le> 56\<close> are exact, a
  property that the empty cache has and that every call of \<open>binomial\<close>, \<open>taylorShift\<close> and
  \<open>taylorShiftBy1\<close> keeps, whatever its arguments.
\<close>

theorem taylorShift_evaluates_shifted:
  assumes "cache_ok binomialCache" and "length p \<le> 57"
  shows "fst (taylorShift binomialCache p shift)
           = map (\<lambda>k. Finite (\<Sum>i = k..<length p. p ! i * real (i choose k) * shift ^ (i - k)))
               [0..<length p]
       \<and> evaluatePolynomial
           (map (\<lambda>k. \<Sum>i = k..<length p. p ! i * real (i choose k) * shift ^ (i - k))
              [0..<length p]) x
           = evaluatePolynomial p (x + shift)
       \<and> (\<forall>n k. 0 \<le> k \<and> k \<le> n \<and> n \<le> 56 \<longrightarrow>
             fst (binomial_cached binomialCache n k) = enat (nat n choose nat k))
       \<and> (\<forall>n k q s. cache_ok (snd (binomial_cached binomialCache n k))
             \<and> cache_ok (snd (taylorShift binomialCache q s))
             \<and> cache_ok (snd (taylorShiftBy1 binomialCache q)))"
proof (intro conjI allI impI)
  show "fst (taylorShift binomialCache p shift)
          = map (\<lambda>k. Finite (\<Sum>i = k..<length p. p ! i * real (i choose k) * shift ^ (i - k)))
              [0..<length p]"
    using taylorShift_exact [OF assms, of shift] by (simp add: shift_term_def)
  show "evaluatePolynomial
          (map (\<lambda>k. \<Sum>i = k..<length p. p ! i * real (i choose k) * shift ^ (i - k))
             [0..<length p]) x
          = evaluatePolynomial p (x + shift)"
    using shifted_coefficients_evaluate [of p shift x] by (simp add: shift_term_def)
  fix n k :: int
  show "cache_ok (snd (binomial_cached binomialCache n k))"
    using binomial_cached_exact [OF assms(1), of n k] by simp
  assume "0 \<le> k \<and> k \<le> n \<and> n \<le> 56"
  then show "fst (binomial_cached binomialCache n k) = enat (nat n choose nat k)"
    using binomial_cached_exact [OF assms(1), of n k] by simp
next
  fix q s
  show "cache_ok (snd (taylorShift binomialCache q s))"
    using assms(1) by (rule taylorShift_keeps_cache_ok)
  show "cache_ok (snd (taylorShiftBy1 binomialCache q))"
    using assms(1) by (rule taylorShiftBy1_keeps_cache_ok)
qed

theorem taylorShift_evaluates_shifted_witness:
  "cache_ok Map.empty \<and> length [1, 2, 3 :: real] \<le> 57
   \<and> fst (taylorShift Map.empty [1, 2, 3] 2) = [Finite 17, Finite 14, Finite 3]
   \<and> evaluatePolynomial [17, 14, 3] 1 = evaluatePolynomial [1, 2, 3] (1 + 2)
   \<and> fst (binomial_cached Map.empty 6 3) = enat 20"
proof -
  have len: "length [1, 2, 3 :: real] \<le> 57" by simp
  note t = taylorShift_evaluates_shifted [OF cache_ok_empty len, of 2 1]
  have up: "[0..<3] = [0, 1, 2]" by (simp add: upt_rec)
  have sums: "{0..<3} = {0, 1, 2 :: nat}" "{1..<3} = {1, 2 :: nat}" "{2..<3} = {2 :: nat}"
    by auto
  have "fst (taylorShift Map.empty [1, 2, 3] 2) = [Finite 17, Finite 14, Finite 3]"
    using t by (simp add: up sums choose_two)
  moreover have "fst (binomial_cached Map.empty 6 3) = enat (nat 6 choose nat 3)"
    using t by simp
  moreover have "(6::nat) choose 3 = 20" by (simp add: eval_nat_numeral)
  ultimately show ?thesis using cache_ok_empty by (simp add: evaluatePolynomial_def)
qed

section \<open>The model on linear and quadratic inputs\<close>

text \<open>
  Equations that run the definitions on polynomials of degree one and on the quadratic
  \<open>(x + 1)(x + 2)\<close>; the evaluations further down rest on them.
\<close>

lemma binomial_cached_k0: "0 \<le> n \<Longrightarrow> binomial_cached c n 0 = (1, c)"
  by (subst binomial_cached.simps) simp

lemma taylorShift_linear:
  "taylorShift c [a0, a1] s = ([Finite (a0 + a1 * s), Finite a1], c)"
  by (simp add: taylorShift_def taylorShift_body_def upt_rec binomial_cached_k0 one_enat_def)

lemma taylorShiftBy1_linear:
  "taylorShiftBy1 c [a0, a1] = ([Finite (a0 + a1), Finite a1], c)"
  by (simp add: taylorShiftBy1_def taylorShiftBy1_body_def upt_rec binomial_cached_k0
      one_enat_def)

lemma scaleInput_linear: "scaleInput [a0, a1] s = [a0, s * a1]"
  by (simp add: scaleInput_def enumerate_eq_zip upt_rec)

lemma integerToString_values:
  "integerToString (- 1) = ''-1''" "integerToString (- 2) = ''-2''"
  by (simp_all add: integerToString_def decimalDigits.simps)

lemma floor_minus_one: "\<lfloor>- 1 :: real\<rfloor> = - 1"
  by linarith

lemma decimalPlaces_tenth: "calculateDecimalPlacesFromPrecision (1 / 10) = 1"
  by (simp add: calculateDecimalPlacesFromPrecision_def log_divide floor_minus_one)

lemma scaleInput_quadratic: "scaleInput [2, 3, 1] (- 1) = [2, - 3, 1]"
  by (simp add: scaleInput_def enumerate_eq_zip upt_rec)

lemma findAllRealRoots_quadratic:
  "findAllRealRoots quadratic_collaborators [2, 3, 1] (1 / 10) = ([2, 3, 1], Inr [- 2, - 1])"
  by (simp add: findAllRealRoots_def processBothSigns_def processRoots_def
      quadratic_collaborators_def scaleInput_quadratic Number_EPSILON_def
      roundToPrecisionBasedOnDecimal_def toFixed_def decimalPlaces_tenth insertRootSorted_def)

section \<open>The sorted root list\<close>

lemma insertRootSorted_loop_shift:
  "insertRootSorted_loop rs x tol (Suc i) = map_option Suc (insertRootSorted_loop rs x tol i)"
  by (induction rs arbitrary: i) auto

lemma insertRootSorted_Nil: "insertRootSorted [] x tol = [x]"
  by (simp add: insertRootSorted_def)

lemma insertRootSorted_Cons:
  "insertRootSorted (r # rs) x tol =
     (if \<bar>x - r\<bar> \<le> tol then r # rs
      else if x < r then x # r # rs
      else r # insertRootSorted rs x tol)"
  by (cases "insertRootSorted_loop rs x tol 0")
     (simp_all add: insertRootSorted_def insertRootSorted_loop_shift [of rs x tol 0, simplified])

lemma insertRootSorted_hd:
  "insertRootSorted rs x tol \<noteq> [] \<and>
   (hd (insertRootSorted rs x tol) = x \<or> (rs \<noteq> [] \<and> hd (insertRootSorted rs x tol) = hd rs))"
  by (cases rs) (simp_all add: insertRootSorted_Nil insertRootSorted_Cons)

lemma insertRootSorted_keeps_invariant:
  assumes "0 \<le> tol"
  shows "root_list_ok tol rs \<Longrightarrow> root_list_ok tol (insertRootSorted rs x tol)"
proof (induction rs)
  case Nil
  show ?case by (simp add: insertRootSorted_Nil root_list_ok_def)
next
  case (Cons r rs)
  have tail: "root_list_ok tol rs"
    using Cons.prems by (auto simp: root_list_ok_def successively_Cons)
  show ?case
  proof (cases "\<bar>x - r\<bar> \<le> tol")
    case True
    then show ?thesis using Cons.prems by (simp add: insertRootSorted_Cons)
  next
    case far: False
    show ?thesis
    proof (cases "x < r")
      case True
      then show ?thesis using far Cons.prems
        by (simp add: insertRootSorted_Cons root_list_ok_def)
    next
      case False
      with far assms have gap: "r < x" "tol < x - r" by linarith+
      have ih: "root_list_ok tol (insertRootSorted rs x tol)" using Cons.IH tail .
      have "hd (insertRootSorted rs x tol) = x \<or> (rs \<noteq> [] \<and> hd (insertRootSorted rs x tol) = hd rs)"
        using insertRootSorted_hd by blast
      moreover have "rs \<noteq> [] \<Longrightarrow> r < hd rs \<and> tol < hd rs - r"
        using Cons.prems by (auto simp: root_list_ok_def successively_Cons)
      ultimately have "r < hd (insertRootSorted rs x tol) \<and> tol < hd (insertRootSorted rs x tol) - r"
        using gap by auto
      then have "root_list_ok tol (r # insertRootSorted rs x tol)"
        using ih by (simp add: root_list_ok_def successively_Cons)
      then show ?thesis using far False by (simp add: insertRootSorted_Cons)
    qed
  qed
qed

lemma root_list_ok_above:
  assumes "0 \<le> tol" "root_list_ok tol (r # rs)" "r' \<in> set rs"
  shows "r < r'"
  using assms(2,3)
proof (induction rs arbitrary: r)
  case Nil
  then show ?case by simp
next
  case (Cons a rs)
  then have "r < a" "root_list_ok tol (a # rs)"
    by (auto simp: root_list_ok_def)
  then show ?case using Cons.IH [of a] Cons.prems(2) by fastforce
qed

lemma insertRootSorted_duplicate:
  assumes "0 \<le> tol"
  shows "root_list_ok tol rs \<Longrightarrow> \<exists>r\<in>set rs. \<bar>x - r\<bar> \<le> tol \<Longrightarrow> insertRootSorted rs x tol = rs"
proof (induction rs)
  case Nil
  then show ?case by simp
next
  case (Cons r rs)
  have tail: "root_list_ok tol rs"
    using Cons.prems(1) by (auto simp: root_list_ok_def successively_Cons)
  show ?case
  proof (cases "\<bar>x - r\<bar> \<le> tol")
    case True
    then show ?thesis by (simp add: insertRootSorted_Cons)
  next
    case far: False
    then obtain r' where r': "r' \<in> set rs" "\<bar>x - r'\<bar> \<le> tol"
      using Cons.prems(2) by auto
    have "r < r'" using root_list_ok_above [OF assms Cons.prems(1) r'(1)] .
    then have "\<not> x < r" using far r'(2) by linarith
    moreover have "insertRootSorted rs x tol = rs"
      using Cons.IH tail r' by blast
    ultimately show ?thesis using far by (simp add: insertRootSorted_Cons)
  qed
qed

lemma insertRootSorted_insort:
  assumes "0 \<le> tol"
  shows "\<forall>r\<in>set rs. tol < \<bar>x - r\<bar> \<Longrightarrow> insertRootSorted rs x tol = insort x rs"
proof (induction rs)
  case Nil
  show ?case by (simp add: insertRootSorted_Nil)
next
  case (Cons r rs)
  then have "tol < \<bar>x - r\<bar>" "insertRootSorted rs x tol = insort x rs" by auto
  then show ?case using assms by (auto simp: insertRootSorted_Cons)
qed

lemma processRoots_loop_keeps_invariant:
  assumes "0 \<le> precision"
  shows "root_list_ok precision roots \<Longrightarrow>
         processRoots_loop C precision polynomial isNegative intervals roots = Inr result \<Longrightarrow>
         root_list_ok precision result"
proof (induction intervals arbitrary: roots)
  case Nil
  then show ?case by simp
next
  case (Cons interval rest)
  let ?rawRoot = "refineRootIntervalBisection C (evaluatePolynomial polynomial) interval precision"
  let ?root = "if isNegative then - ?rawRoot else ?rawRoot"
  from Cons.prems(2) obtain rounded where
    rounded: "roundToPrecisionBasedOnDecimal ?root precision = Inr rounded"
    and rest: "processRoots_loop C precision polynomial isNegative rest
                 (insertRootSorted roots rounded precision) = Inr result"
    by (auto simp: Let_def split: sum.splits)
  have "root_list_ok precision (insertRootSorted roots rounded precision)"
    using Cons.prems(1) by (rule insertRootSorted_keeps_invariant [OF assms])
  then show ?case using rest by (rule Cons.IH)
qed

lemma processBothSigns_keeps_invariant:
  assumes "0 \<le> precision" "root_list_ok precision roots"
    and "processBothSigns C precision sf roots = Inr result"
  shows "root_list_ok precision result"
  using assms(2,3)
  by (auto simp: processBothSigns_def processRoots_def Let_def
      split: if_splits sum.splits
      dest: processRoots_loop_keeps_invariant [OF assms(1)])

lemma findAllRealRoots_keeps_invariant:
  assumes "0 \<le> precision" "snd (findAllRealRoots C p precision) = Inr result"
  shows "root_list_ok precision result"
proof -
  have "root_list_ok precision []" "root_list_ok precision [0]"
    by (simp_all add: root_list_ok_def)
  then show ?thesis using assms
    by (auto simp: findAllRealRoots_def Let_def split: if_splits
        dest: processBothSigns_keeps_invariant [OF assms(1)])
qed

text \<open>
  Claim C7, as stated: \<open>insertRootSorted\<close> applied to any list that is strictly increasing
  with adjacent entries further apart than the tolerance returns such a list. The
  statement fails for a negative tolerance: no entry is then within the tolerance, and a
  root equal to an entry is spliced in behind it.
\<close>

theorem insertRootSorted_negative_tolerance_counterexample:
  "root_list_ok (- 1) [1] \<and> \<not> root_list_ok (- 1) (insertRootSorted [1] 1 (- 1))"
  by (simp add: root_list_ok_def insertRootSorted_def)

text \<open>
  Claim C7, amended: for a tolerance that is not negative, \<open>insertRootSorted\<close> applied to
  a list that is strictly increasing with adjacent entries further apart than the
  tolerance returns such a list; it returns the list unchanged when the new root is
  within the tolerance of an entry, and otherwise the list with the new root inserted at
  its sorted position. Hence, for a precision that is not negative, every list that
  \<open>findAllRealRoots\<close> returns is strictly increasing with adjacent entries further apart
  than the precision.
\<close>

theorem insertRootSorted_invariant:
  assumes "0 \<le> tolerance" and "root_list_ok tolerance roots"
  shows "root_list_ok tolerance (insertRootSorted roots newRoot tolerance)
       \<and> insertRootSorted roots newRoot tolerance
           = (if \<exists>r\<in>set roots. \<bar>newRoot - r\<bar> \<le> tolerance then roots
              else insort newRoot roots)
       \<and> (\<forall>result. snd (findAllRealRoots C polynomial tolerance) = Inr result
             \<longrightarrow> root_list_ok tolerance result)"
proof (intro conjI allI impI)
  show "root_list_ok tolerance (insertRootSorted roots newRoot tolerance)"
    using assms by (rule insertRootSorted_keeps_invariant)
  show "insertRootSorted roots newRoot tolerance
          = (if \<exists>r\<in>set roots. \<bar>newRoot - r\<bar> \<le> tolerance then roots
             else insort newRoot roots)"
  proof (cases "\<exists>r\<in>set roots. \<bar>newRoot - r\<bar> \<le> tolerance")
    case True
    then show ?thesis using insertRootSorted_duplicate [OF assms] by simp
  next
    case False
    then have "\<forall>r\<in>set roots. tolerance < \<bar>newRoot - r\<bar>" by auto
    then show ?thesis using False insertRootSorted_insort [OF assms(1)] by simp
  qed
  fix result
  assume "snd (findAllRealRoots C polynomial tolerance) = Inr result"
  with assms(1) show "root_list_ok tolerance result"
    by (rule findAllRealRoots_keeps_invariant)
qed

theorem insertRootSorted_invariant_witness:
  "0 \<le> (1 / 10 :: real) \<and> root_list_ok (1 / 10) [- 2, - 1]
   \<and> insertRootSorted [- 2, - 1] (- 3 / 2) (1 / 10) = [- 2, - 3 / 2, - 1]
   \<and> insertRootSorted [- 2, - 1] (- 21 / 20) (1 / 10) = [- 2, - 1]
   \<and> root_list_ok (1 / 10) (insertRootSorted [- 2, - 1] (- 3 / 2) (1 / 10))
   \<and> snd (findAllRealRoots quadratic_collaborators [2, 3, 1] (1 / 10)) = Inr [- 2, - 1]
   \<and> root_list_ok (1 / 10) [- 2, - 1]"
proof -
  have tol: "0 \<le> (1 / 10 :: real)" by simp
  have ok: "root_list_ok (1 / 10) [- 2, - 1]" by (simp add: root_list_ok_def)
  note t1 = insertRootSorted_invariant [OF tol ok, of "- 3 / 2" quadratic_collaborators "[2, 3, 1]"]
  note t2 = insertRootSorted_invariant [OF tol ok, of "- 21 / 20" quadratic_collaborators "[2, 3, 1]"]
  have "insertRootSorted [- 2, - 1] (- 3 / 2) (1 / 10) = [- 2, - 3 / 2, - 1]"
    using t1 by simp
  moreover have "insertRootSorted [- 2, - 1] (- 21 / 20) (1 / 10) = [- 2, - 1]"
    using t2 by simp
  moreover have "root_list_ok (1 / 10) (insertRootSorted [- 2, - 1] (- 3 / 2) (1 / 10))"
    using t1 by blast
  moreover have "snd (findAllRealRoots quadratic_collaborators [2, 3, 1] (1 / 10)) = Inr [- 2, - 1]"
    by (simp add: findAllRealRoots_quadratic)
  ultimately show ?thesis using tol ok by simp
qed

section \<open>The empty polynomial\<close>

lemma processRoots_loop_not_empty_error:
  "processRoots_loop C precision polynomial isNegative intervals roots \<noteq> Inl EmptyPolynomial"
proof (induction intervals arbitrary: roots)
  case Nil
  show ?case by simp
next
  case (Cons interval rest)
  then show ?case
    by (auto simp: Let_def roundToPrecisionBasedOnDecimal_def toFixed_def
        split: sum.splits if_splits)
qed

lemma processBothSigns_not_empty_error:
  "processBothSigns C precision sf roots \<noteq> Inl EmptyPolynomial"
  by (auto simp: processBothSigns_def processRoots_def Let_def
      processRoots_loop_not_empty_error split: sum.splits)

text \<open>
  Claim C10. For every precision, \<open>findAllRealRoots\<close> fails with the empty-input error
  when and only when the polynomial has zero length; on the empty polynomial the error
  is the whole outcome, whatever the imported functions are, and the caller's array is
  untouched.
\<close>

theorem findAllRealRoots_empty_error_iff:
  "(snd (findAllRealRoots C polynomial precision) = Inl EmptyPolynomial
      \<longleftrightarrow> length polynomial = 0)
   \<and> findAllRealRoots C [] precision = ([], Inl EmptyPolynomial)"
  by (auto simp: findAllRealRoots_def Let_def processBothSigns_not_empty_error
      split: prod.splits)

theorem findAllRealRoots_empty_error_iff_witness:
  "snd (findAllRealRoots quadratic_collaborators [] (1 / 10)) = Inl EmptyPolynomial
   \<and> snd (findAllRealRoots quadratic_collaborators [2, 3, 1] (1 / 10)) \<noteq> Inl EmptyPolynomial"
  using findAllRealRoots_empty_error_iff [of quadratic_collaborators "[]" "1 / 10"]
    findAllRealRoots_empty_error_iff [of quadratic_collaborators "[2, 3, 1]" "1 / 10"]
  by simp

section \<open>Evaluations at inputs where the code departs from its description\<close>

text \<open>
  Claim C1 says that \<open>mapIntervalToPositiveReals(p, [a,b])\<close> returns the composition of a
  Taylor shift by \<open>a\<close>, a scaling by \<open>b - a\<close>, a reversal and a Taylor shift by 1. The
  function returns the scaled and reversed copy: both shifted arrays are dropped. At
  \<open>p = 2x + 3\<close>, whose root \<open>-3/2\<close> lies in \<open>(-2, -1)\<close>, it returns \<open>3x + 2\<close>, which has no
  positive root. The four steps, each applied to the result of the one before, give
  \<open>2x - 1\<close>, \<open>2x - 1\<close>, \<open>2 - x\<close> and \<open>1 - x\<close>: the composition is \<open>1 - x\<close>, with the
  root 1.
\<close>

theorem mapIntervalToPositiveReals_returns_unshifted:
  "fst (mapIntervalToPositiveReals c p (a, b)) = rev (scale p (b - a))
   \<and> fst (mapIntervalToPositiveReals c [3, 2] (- 2, - 1)) = [2, 3]
   \<and> fst (taylorShift c [3, 2] (- 2)) = [Finite (- 1), Finite 2]
   \<and> scaleInput [- 1, 2] (- 1 - (- 2)) = [- 1, 2]
   \<and> reversed [- 1, 2] = [2, - 1]
   \<and> fst (taylorShiftBy1 c [2, - 1]) = [Finite 1, Finite (- 1)]
   \<and> evaluatePolynomial [3, 2] (- 3 / 2) = 0
   \<and> evaluatePolynomial [2, 3] x = 2 + 3 * x
   \<and> evaluatePolynomial [1, - 1] 1 = 0"
proof -
  have general: "fst (mapIntervalToPositiveReals c p (a, b)) = rev (scale p (b - a))" for p a b
    by (simp add: mapIntervalToPositiveReals_def split_beta Let_def)
  have "scale [3, 2] 1 = [3, 2]" by (simp add: scale_def upt_rec)
  then have "fst (mapIntervalToPositiveReals c [3, 2] (- 2, - 1)) = [2, 3]"
    using general [of "[3, 2]" "- 2" "- 1"] by simp
  then show ?thesis using general
    by (simp add: evaluatePolynomial_def taylorShift_linear scaleInput_linear reversed_def
        taylorShiftBy1_linear)
qed

text \<open>
  Claim C2 says that \<open>mapUnitIntervalToPositiveReals(p)\<close> equals
  \<open>taylorShiftBy1(reversed(p))\<close>. The function returns the reversed copy: the shifted
  array is dropped. At \<open>p = 2x - 1\<close> it returns \<open>2 - x\<close>, while
  \<open>taylorShiftBy1(reversed(p))\<close> is \<open>1 - x\<close>.
\<close>

theorem mapUnitIntervalToPositiveReals_returns_unshifted:
  "fst (mapUnitIntervalToPositiveReals c p) = rev p
   \<and> fst (mapUnitIntervalToPositiveReals c [- 1, 2]) = [2, - 1]
   \<and> fst (taylorShiftBy1 c (reversed [- 1, 2])) = [Finite 1, Finite (- 1)]"
  by (simp add: mapUnitIntervalToPositiveReals_def split_beta Let_def reversed_def
      taylorShiftBy1_linear)

text \<open>
  Claim C3 says that no public operation changes the caller's polynomial. At
  \<open>x^3 - x\<close>, whose constant term is zero, \<open>findAllRealRoots\<close> leaves the caller's array
  one entry shorter, for every precision and whatever the imported functions are; in
  general it does so exactly when the constant term is below \<open>Number.EPSILON\<close> in
  magnitude.
\<close>

theorem findAllRealRoots_splices_caller_array:
  "fst (findAllRealRoots C [0, - 1, 0, 1] precision) = [- 1, 0, 1]
   \<and> fst (findAllRealRoots C polynomial precision)
       = (if polynomial \<noteq> [] \<and> \<bar>polynomial ! 0\<bar> < Number_EPSILON then drop 1 polynomial
          else polynomial)"
  by (simp add: findAllRealRoots_def Number_EPSILON_def)

text \<open>
  Claim C4 says that \<open>findStrictlyNegativeRoots\<close> returns its roots in ascending
  numerical order. The default \<open>sort\<close> orders them as strings: for \<open>(x + 1)(x + 2)\<close> the
  result is \<open>-1\<close> before \<open>-2\<close>.
\<close>

theorem findStrictlyNegativeRoots_string_order:
  "findStrictlyNegativeRoots quadratic_collaborators integerToString [2, 3, 1] precision
     = [- 1, - 2]"
  by (simp add: findStrictlyNegativeRoots_def quadratic_collaborators_def scaleInput_quadratic
      sort_default_def integerToString_values)

text \<open>
  Claim C5 says that \<open>findStrictlyNegativeRoots(p, eps)\<close> is the list of the negated
  elements of \<open>findStrictlyPositiveRoots(scaleInput(p, -1), eps)\<close> in ascending numerical
  order. For \<open>(x + 1)(x + 2)\<close> the first is \<open>-1, -2\<close> and the second \<open>-2, -1\<close>.
\<close>

theorem findStrictlyNegativeRoots_not_numeric_sort:
  "findStrictlyNegativeRoots quadratic_collaborators integerToString [2, 3, 1] precision
     = [- 1, - 2]
   \<and> sort (map (\<lambda>root. - root)
        (findStrictlyPositiveRoots quadratic_collaborators (scaleInput [2, 3, 1] (- 1)) precision))
     = [- 2, - 1]"
  by (simp add: findStrictlyNegativeRoots_def findStrictlyPositiveRoots_def
      quadratic_collaborators_def scaleInput_quadratic sort_default_def integerToString_values)

text \<open>
  Claim C6 says that, on a zero constant term, the square-free reduction used for the
  rest of the pipeline is computed from the polynomial that remains once the constant
  term is dropped. At \<open>x^3 - x\<close> the two passes run on \<open>makeSquareFree\<close> of the whole
  array \<open>[0, -1, 0, 1]\<close>; the array \<open>[-1, 0, 1]\<close> that remains after the splice is handed
  to no function. In general the passes run on \<open>makeSquareFree\<close> of the polynomial as
  it was passed in.
\<close>

theorem findAllRealRoots_square_free_of_input:
  "findAllRealRoots C [0, - 1, 0, 1] precision
     = ([- 1, 0, 1],
        processBothSigns C precision (makeSquareFree C [0, - 1, 0, 1]) [0])
   \<and> snd (findAllRealRoots C polynomial precision)
       = (if polynomial = [] then Inl EmptyPolynomial
          else processBothSigns C precision (makeSquareFree C polynomial)
                 (if \<bar>polynomial ! 0\<bar> < Number_EPSILON then [0] else []))"
  by (simp add: findAllRealRoots_def Number_EPSILON_def)

text \<open>
  Claim C9 says that the rounding step raises no error for any precision. At precision
  \<open>10\<close> the number of decimal places is \<open>-1\<close> and \<open>toFixed\<close> throws a \<open>RangeError\<close>: the
  first root produced ends the call, for every polynomial and whatever the imported
  functions are; so does the call on \<open>(x + 1)(x + 2)\<close>.
\<close>

theorem findAllRealRoots_precision_10_RangeError:
  "calculateDecimalPlacesFromPrecision 10 = - 1
   \<and> roundToPrecisionBasedOnDecimal num 10 = Inl RangeError
   \<and> processRoots_loop C 10 polynomial isNegative (interval # rest) roots = Inl RangeError
   \<and> findAllRealRoots quadratic_collaborators [2, 3, 1] 10 = ([2, 3, 1], Inl RangeError)"
  by (simp add: findAllRealRoots_def processBothSigns_def processRoots_def
      quadratic_collaborators_def scaleInput_quadratic Number_EPSILON_def
      roundToPrecisionBasedOnDecimal_def toFixed_def calculateDecimalPlacesFromPrecision_def)

end
